theory Spec2Isabelle
  imports Main "HOL-Library.Word" "HOL-Library.AList"
begin

section \<open>Data model of the config-map source\<close>

text \<open>
  The development embeds \<^verbatim>\<open>sources/configmap-source/configmapsource.go\<close>.

  Go maps are association lists with distinct keys: the list order stands for the order
  in which the next \<^verbatim>\<open>range\<close> loop visits the map, which the Go runtime chooses freely.
  Statements about one call therefore quantify over every list, and statements about two
  consecutive calls let the intermediate store be re-ordered arbitrarily.

  \<^verbatim>\<open>Configurations\<close> maps a key to a pointer to a \<^verbatim>\<open>ConfigInfo\<close>; the pointer is an
  \<open>option\<close>, \<open>None\<close> being \<^verbatim>\<open>nil\<close>. Every pointer that the code stores is freshly
  allocated for its key and the previous map is dropped at the end of a merge, so no two
  live keys share a \<^verbatim>\<open>ConfigInfo\<close> and a store of values is exact.

  Values are \<^verbatim>\<open>interface{}\<close>; they are a type parameter \<open>'v\<close> whose equality stands
  for \<^verbatim>\<open>reflect.DeepEqual\<close>. A nil slice and an empty slice are both the empty list.
\<close>

type_synonym uint32 = "32 word"

definition MaxUint32 :: uint32 where
  "MaxUint32 = 0xFFFFFFFF"

definition ConfigMapConfigSourceConst :: string where
  "ConfigMapConfigSourceConst = ''ConfigMapSource''"

definition configMapSourcePriority :: nat where
  "configMapSourcePriority = 4"

datatype ConfigMapFileSourceTypes = RegularFile | Directory | InvalidFileType

record 'v ConfigInfo =
  FilePath :: string
  Value :: 'v

record file_t =
  filePath :: string
  priority :: uint32

datatype EventType = Create | Update | Delete

record 'v Event =
  EventSource :: string
  Key :: string
  EventType :: EventType
  EventValue :: 'v

datatype panic = NilPointerDereference

datatype error =
    FileNotExist string
  | FileTypeNotSupported string
  | ReadFailed string
  | PullFailed string string
  | WalkFailed string
  | KeyNotExist

type_synonym 'v gomap = "(string \<times> 'v) list"

type_synonym 'v FileHandler = "string \<Rightarrow> string \<Rightarrow> string + 'v gomap"

record 'v watch =
  watcher :: "string list"
  callback :: "'v Event list option"

record 'v configMapSource =
  Configurations :: "'v ConfigInfo option gomap"
  files :: "file_t list"
  fileHandlers :: "'v FileHandler option gomap"
  watchPool :: "'v watch option"
  sourcePriority :: int

definition NewConfigMapSource :: "'v configMapSource" where
  "NewConfigMapSource =
     \<lparr>Configurations = [], files = [], fileHandlers = [], watchPool = None,
      sourcePriority = int configMapSourcePriority\<rparr>"

section \<open>Source registry\<close>

text \<open>\<^verbatim>\<open>isFileSrcExist\<close>: is the path among the registered files.\<close>

fun isFileSrcExist :: "file_t list \<Rightarrow> string \<Rightarrow> bool" where
  "isFileSrcExist [] fp = False"
| "isFileSrcExist (f # fs) fp = (if fp = filePath f then True else isFileSrcExist fs fp)"

text \<open>
  The loop of \<^verbatim>\<open>handlePriority\<close>: an entry equal to the new one sets \<^verbatim>\<open>prioritySet\<close> and
  appends the new entry; every entry is then appended itself (the loop body has no
  \<^verbatim>\<open>continue\<close>).
\<close>

fun handlePriority_loop ::
  "string \<Rightarrow> uint32 \<Rightarrow> file_t list \<Rightarrow> file_t list \<times> bool \<Rightarrow> file_t list \<times> bool" where
  "handlePriority_loop fp prio [] acc = acc"
| "handlePriority_loop fp prio (f # fs) (newFilePriority, prioritySet) =
     handlePriority_loop fp prio fs
       (if filePath f = fp \<and> priority f = prio
        then (newFilePriority @ [\<lparr>filePath = fp, priority = prio\<rparr>] @ [f], True)
        else (newFilePriority @ [f], prioritySet))"

definition handlePriority ::
  "string \<Rightarrow> uint32 \<Rightarrow> 'v configMapSource \<Rightarrow> error option \<times> 'v configMapSource" where
  "handlePriority fp prio cmSource =
     (case handlePriority_loop fp prio (files cmSource) ([], False) of
        (newFilePriority, prioritySet) \<Rightarrow>
          (None,
           cmSource\<lparr>files :=
             (if \<not> prioritySet then newFilePriority @ [\<lparr>filePath = fp, priority = prio\<rparr>]
              else newFilePriority)\<rparr>))"

text \<open>
  The priority search that \<^verbatim>\<open>compareUpdate\<close> runs twice: start from the sentinel and let
  every entry with the path overwrite the result, so the last one wins.
\<close>

fun priorityLoop :: "file_t list \<Rightarrow> string \<Rightarrow> uint32 \<Rightarrow> uint32" where
  "priorityLoop [] fp acc = acc"
| "priorityLoop (f # fs) fp acc =
     priorityLoop fs fp (if filePath f = fp then priority f else acc)"

section \<open>Merge engine\<close>

definition mkEvent :: "string \<Rightarrow> EventType \<Rightarrow> 'v \<Rightarrow> 'v Event" where
  "mkEvent k ty v =
     \<lparr>EventSource = ConfigMapConfigSourceConst, Key = k, EventType = ty, EventValue = v\<rparr>"

text \<open>
  One iteration of the \<^verbatim>\<open>range cmSource.Configurations\<close> loop of \<^verbatim>\<open>compareUpdate\<close>, for a
  non-nil \<^verbatim>\<open>confInfo\<close>; \<open>P\<close> is \<^verbatim>\<open>filePathPriority\<close>.
\<close>

definition compareUpdate_step ::
  "file_t list \<Rightarrow> uint32 \<Rightarrow> 'v gomap \<Rightarrow> string \<Rightarrow> string \<Rightarrow> 'v ConfigInfo \<Rightarrow>
   'v ConfigInfo option gomap \<times> 'v Event list \<Rightarrow> 'v ConfigInfo option gomap \<times> 'v Event list" where
  "compareUpdate_step fs P newconf fp k confInfo acc =
     (case acc of (fileConfs, events) \<Rightarrow>
        if FilePath confInfo = fp then
          (case map_of newconf k of
             None \<Rightarrow> (fileConfs, events @ [mkEvent k Delete (Value confInfo)])
           | Some newConfValue \<Rightarrow>
               if Value confInfo = newConfValue
               then (AList.update k (Some confInfo) fileConfs, events)
               else (AList.update k (Some (confInfo\<lparr>Value := newConfValue\<rparr>)) fileConfs,
                     events @ [mkEvent k Update newConfValue]))
        else
          (case map_of newconf k of
             Some newConfValue \<Rightarrow>
               (let prio = priorityLoop fs (FilePath confInfo) MaxUint32 in
                if prio = P
                then (AList.update k (Some (confInfo\<lparr>Value := newConfValue\<rparr>)) fileConfs, events)
                else if P < prio
                then (AList.update k (Some (confInfo\<lparr>Value := newConfValue\<rparr>)) fileConfs,
                      events @ [mkEvent k Update newConfValue])
                else (AList.update k (Some confInfo) fileConfs, events))
           | None \<Rightarrow> (AList.update k (Some confInfo) fileConfs, events)))"

text \<open>The loop itself: a nil \<^verbatim>\<open>confInfo\<close> is assigned through, which panics.\<close>

fun compareUpdate_loop ::
  "file_t list \<Rightarrow> uint32 \<Rightarrow> 'v gomap \<Rightarrow> string \<Rightarrow> 'v ConfigInfo option gomap \<Rightarrow>
   'v ConfigInfo option gomap \<times> 'v Event list \<Rightarrow>
   panic + ('v ConfigInfo option gomap \<times> 'v Event list)" where
  "compareUpdate_loop fs P newconf fp [] acc = Inr acc"
| "compareUpdate_loop fs P newconf fp ((k, None) # rest) acc = Inl NilPointerDereference"
| "compareUpdate_loop fs P newconf fp ((k, Some confInfo) # rest) acc =
     compareUpdate_loop fs P newconf fp rest (compareUpdate_step fs P newconf fp k confInfo acc)"

fun addOrCreateConf ::
  "'v ConfigInfo option gomap \<Rightarrow> 'v gomap \<Rightarrow> 'v Event list \<Rightarrow> string \<Rightarrow>
   'v ConfigInfo option gomap \<times> 'v Event list" where
  "addOrCreateConf fileConfs [] events fp = (fileConfs, events)"
| "addOrCreateConf fileConfs ((k, v) # rest) events fp =
     (case map_of fileConfs k of
        Some _ \<Rightarrow> addOrCreateConf fileConfs rest events fp
      | None \<Rightarrow>
          addOrCreateConf (AList.update k (Some \<lparr>FilePath = fp, Value = v\<rparr>) fileConfs) rest
            (events @ [mkEvent k Create v]) fp)"

text \<open>
  \<^verbatim>\<open>compareUpdate\<close> on a non-nil receiver (a nil receiver returns before anything is
  read). The guard returns the source untouched when the search ends on the sentinel;
  otherwise the loop fills \<^verbatim>\<open>fileConfs\<close>, \<^verbatim>\<open>addOrCreateConf\<close> adds the new keys, and
  \<^verbatim>\<open>fileConfs\<close> becomes the store.
\<close>

definition compareUpdate ::
  "'v gomap \<Rightarrow> string \<Rightarrow> 'v configMapSource \<Rightarrow> panic + ('v configMapSource \<times> 'v Event list)" where
  "compareUpdate newconf fp cmSource =
     (let filePathPriority = priorityLoop (files cmSource) fp MaxUint32 in
      if filePathPriority = MaxUint32 then Inr (cmSource, [])
      else
        (case compareUpdate_loop (files cmSource) filePathPriority newconf fp
                (Configurations cmSource) ([], []) of
           Inl p \<Rightarrow> Inl p
         | Inr (fileConfs, events) \<Rightarrow>
             (case addOrCreateConf fileConfs newconf events fp of
                (fileConfs', events') \<Rightarrow>
                  Inr (cmSource\<lparr>Configurations := fileConfs'\<rparr>, events'))))"

section \<open>Reading the store\<close>

fun GetConfigurationByKey_loop :: "'v ConfigInfo option gomap \<Rightarrow> string \<Rightarrow> panic + (error + 'v)" where
  "GetConfigurationByKey_loop [] k = Inr (Inl KeyNotExist)"
| "GetConfigurationByKey_loop ((ckey, None) # rest) k = Inl NilPointerDereference"
| "GetConfigurationByKey_loop ((ckey, Some confInfo) # rest) k =
     (if ckey = k then Inr (Inr (Value confInfo)) else GetConfigurationByKey_loop rest k)"

definition GetConfigurationByKey :: "'v configMapSource \<Rightarrow> string \<Rightarrow> panic + (error + 'v)" where
  "GetConfigurationByKey cmSource k = GetConfigurationByKey_loop (Configurations cmSource) k"

section \<open>Loading files\<close>

text \<open>
  The operating system as \<^verbatim>\<open>AddFile\<close> observes it, for absolute paths (so that
  \<^verbatim>\<open>filepath.Abs\<close> is the identity): whether \<^verbatim>\<open>os.Open\<close> reports that the path does not
  exist, what \<^verbatim>\<open>getFileType\<close> finds, what \<^verbatim>\<open>ioutil.ReadFile\<close> returns (\<open>None\<close> on
  failure), and the paths that \<^verbatim>\<open>filepath.Walk\<close> visits from a root, in its lexical
  pre-order, each with the error it passes to the callback. The callback never returns
  \<^verbatim>\<open>SkipDir\<close>, so \<^verbatim>\<open>Walk\<close> visits these paths in turn and stops at the first error
  the callback returns, which it returns itself.
\<close>

record fsys =
  IsNotExist :: "string \<Rightarrow> bool"
  Stat :: "string \<Rightarrow> ConfigMapFileSourceTypes"
  ReadFile :: "string \<Rightarrow> string option"
  Walk :: "string \<Rightarrow> (string \<times> error option) list"

definition AddWatchFile :: "string \<Rightarrow> 'v watch \<Rightarrow> 'v watch" where
  "AddWatchFile fp wth = wth\<lparr>watcher := watcher wth @ [fp]\<rparr>"

text \<open>\<^verbatim>\<open>if cmSource.watchPool != nil { cmSource.watchPool.AddWatchFile(path) }\<close>\<close>

definition watchIfPool :: "string \<Rightarrow> 'v configMapSource \<Rightarrow> 'v configMapSource" where
  "watchIfPool fp cmSource =
     (case watchPool cmSource of
        None \<Rightarrow> cmSource
      | Some wth \<Rightarrow> cmSource\<lparr>watchPool := Some (AddWatchFile fp wth)\<rparr>)"

text \<open>
  The delivery loop of \<^verbatim>\<open>handleFile\<close>: with a watch pool and a callback, every event is
  handed to \<^verbatim>\<open>OnEvent\<close>; the callback is the list of the events it has received.
\<close>

definition OnEvents :: "'v Event list \<Rightarrow> 'v configMapSource \<Rightarrow> 'v configMapSource" where
  "OnEvents events cmSource =
     (case watchPool cmSource of
        None \<Rightarrow> cmSource
      | Some wth \<Rightarrow>
          (case callback wth of
             None \<Rightarrow> cmSource
           | Some received \<Rightarrow>
               cmSource\<lparr>watchPool := Some (wth\<lparr>callback := Some (received @ events)\<rparr>)\<rparr>))"

text \<open>
  \<^verbatim>\<open>handleFile\<close>; \<open>convert2JavaProps\<close> is \<^verbatim>\<open>utils.Convert2JavaProps\<close>, the default handler,
  which lives outside this file.
\<close>

definition handleFile ::
  "'v FileHandler \<Rightarrow> fsys \<Rightarrow> string \<Rightarrow> uint32 \<Rightarrow> 'v FileHandler option \<Rightarrow>
   'v configMapSource \<Rightarrow> panic + (error option \<times> 'v configMapSource)" where
  "handleFile convert2JavaProps os name prio handle cmSource =
     (case ReadFile os name of
        None \<Rightarrow> Inr (Some (ReadFailed name), cmSource)
      | Some Content \<Rightarrow>
          (case (case handle of
                   Some h \<Rightarrow> h name Content
                 | None \<Rightarrow> convert2JavaProps name Content) of
             Inl msg \<Rightarrow> Inr (Some (PullFailed name msg), cmSource)
           | Inr config \<Rightarrow>
               (case handlePriority name prio cmSource of
                  (Some e, cmSource1) \<Rightarrow> Inr (Some e, cmSource1)
                | (None, cmSource1) \<Rightarrow>
                    (case compareUpdate config name cmSource1 of
                       Inl pn \<Rightarrow> Inl pn
                     | Inr (cmSource2, events) \<Rightarrow> Inr (None, OnEvents events cmSource2)))))"

text \<open>The callback that \<^verbatim>\<open>AddFile\<close> passes to \<^verbatim>\<open>filepath.Walk\<close>.\<close>

definition walkFn ::
  "'v FileHandler \<Rightarrow> fsys \<Rightarrow> uint32 \<Rightarrow> 'v FileHandler option \<Rightarrow> string \<times> error option \<Rightarrow>
   'v configMapSource \<Rightarrow> panic + (error option \<times> 'v configMapSource)" where
  "walkFn convert2JavaProps os prio handle visit cmSource =
     (case visit of
        (fp, Some e) \<Rightarrow> Inr (Some e, cmSource)
      | (fp, None) \<Rightarrow>
          if IsNotExist os fp then Inr (Some (FileNotExist fp), cmSource)
          else
            (case Stat os fp of
               Directory \<Rightarrow> Inr (None, watchIfPool fp cmSource)
             | RegularFile \<Rightarrow>
                 (case handleFile convert2JavaProps os fp prio handle cmSource of
                    Inl pn \<Rightarrow> Inl pn
                  | Inr (err, cmSource1) \<Rightarrow> Inr (err, watchIfPool fp cmSource1))
             | InvalidFileType \<Rightarrow> Inr (Some (FileTypeNotSupported fp), cmSource)))"

fun filepath_Walk ::
  "(string \<times> error option \<Rightarrow> 'v configMapSource \<Rightarrow> panic + (error option \<times> 'v configMapSource)) \<Rightarrow>
   (string \<times> error option) list \<Rightarrow> 'v configMapSource \<Rightarrow>
   panic + (error option \<times> 'v configMapSource)" where
  "filepath_Walk fn [] cmSource = Inr (None, cmSource)"
| "filepath_Walk fn (visit # rest) cmSource =
     (case fn visit cmSource of
        Inl pn \<Rightarrow> Inl pn
      | Inr (Some e, cmSource1) \<Rightarrow> Inr (Some e, cmSource1)
      | Inr (None, cmSource1) \<Rightarrow> filepath_Walk fn rest cmSource1)"

text \<open>
  \<^verbatim>\<open>AddFile\<close>: the error of the walk is assigned to \<^verbatim>\<open>err\<close> and the function then returns
  \<^verbatim>\<open>nil\<close>.
\<close>

definition AddFile ::
  "'v FileHandler \<Rightarrow> fsys \<Rightarrow> string \<Rightarrow> uint32 \<Rightarrow> 'v FileHandler option \<Rightarrow>
   'v configMapSource \<Rightarrow> panic + (error option \<times> 'v configMapSource)" where
  "AddFile convert2JavaProps os p prio handle cmSource =
     (if IsNotExist os p then Inr (Some (FileNotExist p), cmSource)
      else if isFileSrcExist (files cmSource) p then Inr (None, cmSource)
      else
        (case filepath_Walk (walkFn convert2JavaProps os prio handle) (Walk os p)
                (cmSource\<lparr>fileHandlers := AList.update p handle (fileHandlers cmSource)\<rparr>) of
           Inl pn \<Rightarrow> Inl pn
         | Inr (err, cmSource1) \<Rightarrow> Inr (None, cmSource1)))"

section \<open>Sequences of operations\<close>

text \<open>
  A history of the source: registrations, merges, and the runtime's freedom to visit the
  store in another order at the next loop. \<open>Reorder\<close> installs the given list when it
  holds exactly the entries of the store, each key once, and does nothing otherwise.
\<close>

datatype 'v op =
    Register string uint32
  | Merge "'v gomap" string
  | Reorder "'v ConfigInfo option gomap"

definition reorder :: "'v ConfigInfo option gomap \<Rightarrow> 'v configMapSource \<Rightarrow> 'v configMapSource" where
  "reorder st s =
     (if distinct (map fst st) \<and> set st = set (Configurations s)
      then s\<lparr>Configurations := st\<rparr> else s)"

fun applyOps :: "'v op list \<Rightarrow> 'v configMapSource \<Rightarrow> panic + 'v configMapSource" where
  "applyOps [] s = Inr s"
| "applyOps (Register fp prio # ops) s = applyOps ops (snd (handlePriority fp prio s))"
| "applyOps (Merge newconf fp # ops) s =
     (case compareUpdate newconf fp s of
        Inl pn \<Rightarrow> Inl pn
      | Inr (s', events) \<Rightarrow> applyOps ops s')"
| "applyOps (Reorder st # ops) s = applyOps ops (reorder st s)"

section \<open>Notions used in the statements and proofs\<close>

text \<open>
  A store is well formed when it holds no nil pointer and each key once. The second part
  holds of every Go map; the first is what the merge maintains.
\<close>

definition wf_store :: "'v configMapSource \<Rightarrow> bool" where
  "wf_store s \<longleftrightarrow> None \<notin> snd ` set (Configurations s) \<and> distinct (map fst (Configurations s))"

text \<open>
  The events that the loop over the store appends, entry by entry, and the events that
  \<^verbatim>\<open>addOrCreateConf\<close> appends.
\<close>

definition loop_events ::
  "file_t list \<Rightarrow> uint32 \<Rightarrow> 'v gomap \<Rightarrow> string \<Rightarrow> 'v ConfigInfo option gomap \<Rightarrow> 'v Event list" where
  "loop_events fs P nc fp st =
     concat (map (\<lambda>(k, c). case c of None \<Rightarrow> []
                    | Some ci \<Rightarrow> snd (compareUpdate_step fs P nc fp k ci ([], []))) st)"

definition create_events :: "'v ConfigInfo option gomap \<Rightarrow> 'v gomap \<Rightarrow> string \<Rightarrow> 'v Event list" where
  "create_events fc nc fp = snd (addOrCreateConf fc nc [] fp)"


text \<open>Three registered files and a store with one key, owned by the second file.\<close>

definition example_files :: "file_t list" where
  "example_files =
     [\<lparr>filePath = ''/etc/a.conf'', priority = 1\<rparr>,
      \<lparr>filePath = ''/etc/b.conf'', priority = 2\<rparr>,
      \<lparr>filePath = ''/etc/c.conf'', priority = 2\<rparr>]"

definition example_source :: "string configMapSource" where
  "example_source =
     \<lparr>Configurations = [(''k'', Some \<lparr>FilePath = ''/etc/b.conf'', Value = ''old''\<rparr>)],
      files = example_files, fileHandlers = [], watchPool = None, sourcePriority = 4\<rparr>"

text \<open>
  The same files after the second one has been registered again with the largest priority
  value, as two calls of \<^verbatim>\<open>AddFile\<close> on its directory do.
\<close>

definition example_sentinel_source :: "string configMapSource" where
  "example_sentinel_source =
     \<lparr>Configurations = [(''k'', Some \<lparr>FilePath = ''/etc/b.conf'', Value = ''old''\<rparr>)],
      files = [\<lparr>filePath = ''/etc/b.conf'', priority = 2\<rparr>,
               \<lparr>filePath = ''/etc/b.conf'', priority = 0xFFFFFFFF\<rparr>],
      fileHandlers = [], watchPool = None, sourcePriority = 4\<rparr>"

text \<open>
  A directory with a regular file, a node that is neither a file nor a directory, and a
  second regular file; a handler that reads the one key \<open>x\<close> from every file.
\<close>

definition example_os :: fsys where
  "example_os =
     \<lparr>IsNotExist = (\<lambda>fp. False),
      Stat = (\<lambda>fp. if fp = ''/conf'' then Directory
                    else if fp = ''/conf/sock'' then InvalidFileType else RegularFile),
      ReadFile = (\<lambda>fp. Some ''x=1''),
      Walk = (\<lambda>fp. [(''/conf'', None), (''/conf/a.conf'', None), (''/conf/sock'', None),
                     (''/conf/z.conf'', None)])\<rparr>"

definition example_handler :: "string FileHandler" where
  "example_handler name Content = Inr [(''x'', ''1'')]"

section \<open>Properties of one loop iteration and of the two loops\<close>

lemma mkEvent_sel [simp]:
  "Key (mkEvent k ty v) = k" "EventType (mkEvent k ty v) = ty" "EventValue (mkEvent k ty v) = v"
  by (simp_all add: mkEvent_def)

lemma priorityLoop_absent:
  "fp \<notin> filePath ` set fs \<Longrightarrow> priorityLoop fs fp acc = acc"
  by (induction fs arbitrary: acc) auto

lemma step_events:
  "snd (compareUpdate_step fs P nc fp k ci (fc, ev)) = ev @ snd (compareUpdate_step fs P nc fp k ci ([], []))"
  by (simp add: compareUpdate_step_def Let_def split: option.splits)

lemma step_map_same:
  "map_of fc k = None \<Longrightarrow>
   map_of (fst (compareUpdate_step fs P nc fp k ci (fc, ev))) k =
   map_of (fst (compareUpdate_step fs P nc fp k ci ([], []))) k"
  by (simp add: compareUpdate_step_def Let_def update_conv' split: option.splits)

lemma step_map_other:
  "k' \<noteq> k \<Longrightarrow> map_of (fst (compareUpdate_step fs P nc fp k ci (fc, ev))) k' = map_of fc k'"
  by (simp add: compareUpdate_step_def Let_def update_conv' split: option.splits)

lemma step_distinct:
  "distinct (map fst fc) \<Longrightarrow> distinct (map fst (fst (compareUpdate_step fs P nc fp k ci (fc, ev))))"
  by (simp add: compareUpdate_step_def Let_def distinct_update split: option.splits)

lemma update_nil_free:
  "None \<notin> snd ` set fc \<Longrightarrow> None \<notin> snd ` set (AList.update k (Some x) fc)"
  by (induction fc) auto

lemma step_nil_free:
  "None \<notin> snd ` set fc \<Longrightarrow> None \<notin> snd ` set (fst (compareUpdate_step fs P nc fp k ci (fc, ev)))"
  by (simp add: compareUpdate_step_def Let_def update_nil_free split: option.splits)

lemma step_own_events:
  "e \<in> set (snd (compareUpdate_step fs P nc fp k ci ([], []))) \<Longrightarrow>
   Key e = k \<and> (EventType e = Update \<or> EventType e = Delete)"
  by (auto simp add: compareUpdate_step_def Let_def split: option.splits if_splits)

lemma loop_total:
  "None \<notin> snd ` set st \<Longrightarrow> \<exists>r. compareUpdate_loop fs P nc fp st acc = Inr r"
proof (induction st arbitrary: acc)
  case Nil
  then show ?case by simp
next
  case (Cons a st)
  obtain k c where a: "a = (k, c)" by (cases a)
  with Cons.prems obtain ci where c: "c = Some ci" by (cases c) force+
  from Cons.prems have "None \<notin> snd ` set st" by auto
  from Cons.IH [OF this] show ?case by (simp add: a c)
qed

lemma loop_events_eq:
  "compareUpdate_loop fs P nc fp st (fc, ev) = Inr (fc', ev') \<Longrightarrow>
   ev' = ev @ loop_events fs P nc fp st"
proof (induction st arbitrary: fc ev)
  case Nil
  then show ?case by (simp add: loop_events_def)
next
  case (Cons a st)
  obtain k c where a: "a = (k, c)" by (cases a)
  from Cons.prems obtain ci where c: "c = Some ci" by (cases c) (simp_all add: a)
  obtain fc1 ev1 where s: "compareUpdate_step fs P nc fp k ci (fc, ev) = (fc1, ev1)"
    by (cases "compareUpdate_step fs P nc fp k ci (fc, ev)")
  have ev1: "ev1 = ev @ snd (compareUpdate_step fs P nc fp k ci ([], []))"
    using step_events [of fs P nc fp k ci fc ev] by (simp add: s)
  from Cons.prems have "compareUpdate_loop fs P nc fp st (fc1, ev1) = Inr (fc', ev')"
    by (simp add: a c s)
  from Cons.IH [OF this] show ?case
    by (simp add: ev1 loop_events_def a c)
qed

lemma loop_events_keys:
  "e \<in> set (loop_events fs P nc fp st) \<Longrightarrow>
   Key e \<in> fst ` set st \<and> (EventType e = Update \<or> EventType e = Delete)"
  by (induction st) (auto simp: loop_events_def split: option.splits dest: step_own_events)

lemma loop_events_absent:
  "K \<notin> fst ` set st \<Longrightarrow> filter (\<lambda>e. Key e = K) (loop_events fs P nc fp st) = []"
  by (auto simp: filter_empty_conv dest: loop_events_keys)

lemma step_own_filter:
  "filter (\<lambda>e. Key e = k) (snd (compareUpdate_step fs P nc fp k ci ([], []))) =
   snd (compareUpdate_step fs P nc fp k ci ([], []))"
  by (auto simp: filter_id_conv dest: step_own_events)

lemma step_other_filter:
  "K \<noteq> k \<Longrightarrow> filter (\<lambda>e. Key e = K) (snd (compareUpdate_step fs P nc fp k ci ([], []))) = []"
  by (auto simp: filter_empty_conv dest: step_own_events)

lemma loop_events_present:
  "distinct (map fst st) \<Longrightarrow> (K, Some ci) \<in> set st \<Longrightarrow>
   filter (\<lambda>e. Key e = K) (loop_events fs P nc fp st) =
   snd (compareUpdate_step fs P nc fp K ci ([], []))"
proof (induction st)
  case Nil
  then show ?case by simp
next
  case (Cons a st)
  obtain k c where a: "a = (k, c)" by (cases a)
  have unfold: "loop_events fs P nc fp (a # st) =
      (case c of None \<Rightarrow> [] | Some ci \<Rightarrow> snd (compareUpdate_step fs P nc fp k ci ([], [])))
      @ loop_events fs P nc fp st"
    by (simp add: loop_events_def a)
  show ?case
  proof (cases "k = K")
    case True
    with Cons.prems a have "K \<notin> fst ` set st" by auto
    moreover from this Cons.prems a True have "c = Some ci" by force
    ultimately show ?thesis
      by (simp add: unfold True step_own_filter loop_events_absent)
  next
    case False
    with Cons.prems a have "(K, Some ci) \<in> set st" "distinct (map fst st)" by auto
    with Cons.IH False show ?thesis
      by (simp add: unfold step_other_filter split: option.splits)
  qed
qed

lemma step_own_keys_distinct:
  "distinct (map Key (snd (compareUpdate_step fs P nc fp k ci ([], []))))"
  by (auto simp add: compareUpdate_step_def Let_def split: option.splits if_splits)

lemma loop_events_distinct:
  "distinct (map fst st) \<Longrightarrow> distinct (map Key (loop_events fs P nc fp st))"
proof (induction st)
  case Nil
  then show ?case by (simp add: loop_events_def)
next
  case (Cons a st)
  obtain k c where a: "a = (k, c)" by (cases a)
  have unfold: "loop_events fs P nc fp (a # st) =
      (case c of None \<Rightarrow> [] | Some ci \<Rightarrow> snd (compareUpdate_step fs P nc fp k ci ([], [])))
      @ loop_events fs P nc fp st"
    by (simp add: loop_events_def a)
  from Cons.prems a have k: "k \<notin> fst ` set st" and d: "distinct (map fst st)" by auto
  have disj: "\<And>e e'. e \<in> set (snd (compareUpdate_step fs P nc fp k ci' ([], []))) \<Longrightarrow>
      e' \<in> set (loop_events fs P nc fp st) \<Longrightarrow> Key e \<noteq> Key e'" for ci'
    using k by (metis step_own_events loop_events_keys)
  show ?case
    using Cons.IH [OF d] disj
    by (cases c) (auto simp: unfold step_own_keys_distinct)
qed

lemma loop_map_absent:
  "compareUpdate_loop fs P nc fp st (fc, ev) = Inr (fc', ev') \<Longrightarrow> K \<notin> fst ` set st \<Longrightarrow>
   map_of fc' K = map_of fc K"
proof (induction st arbitrary: fc ev)
  case Nil
  then show ?case by simp
next
  case (Cons a st)
  obtain k c where a: "a = (k, c)" by (cases a)
  from Cons.prems obtain ci where c: "c = Some ci" by (cases c) (simp_all add: a)
  obtain fc1 ev1 where s: "compareUpdate_step fs P nc fp k ci (fc, ev) = (fc1, ev1)"
    by (cases "compareUpdate_step fs P nc fp k ci (fc, ev)")
  from Cons.prems a have ne: "K \<noteq> k" and K: "K \<notin> fst ` set st" by auto
  from Cons.prems have "compareUpdate_loop fs P nc fp st (fc1, ev1) = Inr (fc', ev')"
    by (simp add: a c s)
  from Cons.IH [OF this K] have "map_of fc' K = map_of fc1 K" .
  also have "\<dots> = map_of fc K"
    using step_map_other [OF ne, of fs P nc fp ci fc ev] by (simp add: s)
  finally show ?case .
qed

lemma loop_map_present:
  "compareUpdate_loop fs P nc fp st (fc, ev) = Inr (fc', ev') \<Longrightarrow> distinct (map fst st) \<Longrightarrow>
   (K, Some ci) \<in> set st \<Longrightarrow> map_of fc K = None \<Longrightarrow>
   map_of fc' K = map_of (fst (compareUpdate_step fs P nc fp K ci ([], []))) K"
proof (induction st arbitrary: fc ev)
  case Nil
  then show ?case by simp
next
  case (Cons a st)
  obtain k c where a: "a = (k, c)" by (cases a)
  from Cons.prems obtain ci' where c: "c = Some ci'" by (cases c) (simp_all add: a)
  obtain fc1 ev1 where s: "compareUpdate_step fs P nc fp k ci' (fc, ev) = (fc1, ev1)"
    by (cases "compareUpdate_step fs P nc fp k ci' (fc, ev)")
  from Cons.prems have rest: "compareUpdate_loop fs P nc fp st (fc1, ev1) = Inr (fc', ev')"
    by (simp add: a c s)
  from Cons.prems a have k: "k \<notin> fst ` set st" and d: "distinct (map fst st)" by auto
  show ?case
  proof (cases "k = K")
    case True
    with k Cons.prems a c have ci: "ci' = ci" by force
    from loop_map_absent [OF rest] k True have "map_of fc' K = map_of fc1 K" by simp
    also have "\<dots> = map_of (fst (compareUpdate_step fs P nc fp K ci ([], []))) K"
      using step_map_same [OF Cons.prems(4), of fs P nc fp ci ev] s by (simp add: True ci)
    finally show ?thesis .
  next
    case False
    with Cons.prems a have mem: "(K, Some ci) \<in> set st" by auto
    have "map_of fc1 K = None"
      using step_map_other [of K k fs P nc fp ci' fc ev] False Cons.prems(4) by (simp add: s)
    from Cons.IH [OF rest d mem this] show ?thesis .
  qed
qed

lemma loop_distinct:
  "compareUpdate_loop fs P nc fp st (fc, ev) = Inr (fc', ev') \<Longrightarrow> distinct (map fst fc) \<Longrightarrow>
   distinct (map fst fc')"
proof (induction st arbitrary: fc ev)
  case Nil
  then show ?case by simp
next
  case (Cons a st)
  obtain k c where a: "a = (k, c)" by (cases a)
  from Cons.prems obtain ci where c: "c = Some ci" by (cases c) (simp_all add: a)
  obtain fc1 ev1 where s: "compareUpdate_step fs P nc fp k ci (fc, ev) = (fc1, ev1)"
    by (cases "compareUpdate_step fs P nc fp k ci (fc, ev)")
  from Cons.prems have rest: "compareUpdate_loop fs P nc fp st (fc1, ev1) = Inr (fc', ev')"
    by (simp add: a c s)
  have "distinct (map fst fc1)"
    using step_distinct [OF Cons.prems(2), of fs P nc fp k ci ev] by (simp add: s)
  from Cons.IH [OF rest this] show ?case .
qed

lemma loop_nil_free:
  "compareUpdate_loop fs P nc fp st (fc, ev) = Inr (fc', ev') \<Longrightarrow> None \<notin> snd ` set fc \<Longrightarrow>
   None \<notin> snd ` set fc'"
proof (induction st arbitrary: fc ev)
  case Nil
  then show ?case by simp
next
  case (Cons a st)
  obtain k c where a: "a = (k, c)" by (cases a)
  from Cons.prems obtain ci where c: "c = Some ci" by (cases c) (simp_all add: a)
  obtain fc1 ev1 where s: "compareUpdate_step fs P nc fp k ci (fc, ev) = (fc1, ev1)"
    by (cases "compareUpdate_step fs P nc fp k ci (fc, ev)")
  from Cons.prems have rest: "compareUpdate_loop fs P nc fp st (fc1, ev1) = Inr (fc', ev')"
    by (simp add: a c s)
  have "None \<notin> snd ` set fc1"
    using step_nil_free [OF Cons.prems(2), of fs P nc fp k ci ev] by (simp add: s)
  from Cons.IH [OF rest this] show ?case .
qed

lemma aoc_events:
  "snd (addOrCreateConf fc nc ev fp) = ev @ create_events fc nc fp"
proof (induction nc arbitrary: fc ev)
  case Nil
  then show ?case by (simp add: create_events_def)
next
  case (Cons a nc)
  obtain k v where a: "a = (k, v)" by (cases a)
  show ?case
  proof (cases "map_of fc k")
    case None
    let ?fc = "AList.update k (Some \<lparr>FilePath = fp, Value = v\<rparr>) fc"
    have "snd (addOrCreateConf fc (a # nc) ev fp) = (ev @ [mkEvent k Create v]) @ create_events ?fc nc fp"
      using Cons.IH [of ?fc "ev @ [mkEvent k Create v]"] by (simp add: a None)
    moreover have "create_events fc (a # nc) fp = [mkEvent k Create v] @ create_events ?fc nc fp"
      using Cons.IH [of ?fc "[mkEvent k Create v]"] by (simp add: a None create_events_def)
    ultimately show ?thesis by simp
  next
    case (Some x)
    then show ?thesis using Cons.IH [of fc ev] by (simp add: a create_events_def)
  qed
qed

lemma aoc_fst_ev:
  "fst (addOrCreateConf fc nc ev fp) = fst (addOrCreateConf fc nc [] fp)"
proof (induction nc arbitrary: fc ev)
  case Nil
  then show ?case by simp
next
  case (Cons a nc)
  obtain k v where a: "a = (k, v)" by (cases a)
  show ?case
  proof (cases "map_of fc k")
    case None
    let ?fc = "AList.update k (Some \<lparr>FilePath = fp, Value = v\<rparr>) fc"
    show ?thesis
      using Cons.IH [of ?fc "ev @ [mkEvent k Create v]"] Cons.IH [of ?fc "[mkEvent k Create v]"]
      by (simp add: a None)
  next
    case (Some x)
    then show ?thesis using Cons.IH [of fc ev] by (simp add: a)
  qed
qed

lemma aoc_map:
  "map_of (fst (addOrCreateConf fc nc ev fp)) K =
     (case map_of fc K of Some x \<Rightarrow> Some x
      | None \<Rightarrow> (case map_of nc K of None \<Rightarrow> None
                  | Some v \<Rightarrow> Some (Some \<lparr>FilePath = fp, Value = v\<rparr>)))"
proof (induction nc arbitrary: fc ev)
  case Nil
  then show ?case by (simp split: option.splits)
next
  case (Cons a nc)
  obtain k v where a: "a = (k, v)" by (cases a)
  show ?case
    by (cases "map_of fc k") (auto simp: a Cons.IH update_conv' split: option.splits)
qed

lemma aoc_distinct:
  "distinct (map fst fc) \<Longrightarrow> distinct (map fst (fst (addOrCreateConf fc nc ev fp)))"
  by (induction nc arbitrary: fc ev) (auto simp: distinct_update split: option.splits)

lemma aoc_nil_free:
  "None \<notin> snd ` set fc \<Longrightarrow> None \<notin> snd ` set (fst (addOrCreateConf fc nc ev fp))"
proof (induction nc arbitrary: fc ev)
  case Nil
  then show ?case by simp
next
  case (Cons a nc)
  obtain k v where a: "a = (k, v)" by (cases a)
  show ?case
    using Cons.prems
    by (cases "map_of fc k") (simp_all add: a Cons.IH update_nil_free)
qed

lemma create_events_keys:
  "e \<in> set (create_events fc nc fp) \<Longrightarrow>
   EventType e = Create \<and> map_of fc (Key e) = None \<and> Key e \<in> fst ` set nc"
proof (induction nc arbitrary: fc)
  case Nil
  then show ?case by (simp add: create_events_def)
next
  case (Cons a nc)
  obtain k v where a: "a = (k, v)" by (cases a)
  show ?case
  proof (cases "map_of fc k")
    case None
    let ?fc = "AList.update k (Some \<lparr>FilePath = fp, Value = v\<rparr>) fc"
    have eq: "create_events fc (a # nc) fp = mkEvent k Create v # create_events ?fc nc fp"
      using aoc_events [of ?fc nc "[mkEvent k Create v]" fp] by (simp add: a None create_events_def)
    from Cons.prems eq consider "e = mkEvent k Create v" | "e \<in> set (create_events ?fc nc fp)"
      by auto
    then show ?thesis
    proof cases
      case 1
      then show ?thesis by (simp add: None a)
    next
      case 2
      from Cons.IH [OF 2] show ?thesis
        by (auto simp: a update_conv' split: if_splits)
    qed
  next
    case (Some x)
    then have "create_events fc (a # nc) fp = create_events fc nc fp"
      by (simp add: a create_events_def)
    with Cons.prems Cons.IH [of fc] show ?thesis by (auto simp: a)
  qed
qed

lemma create_events_distinct: "distinct (map Key (create_events fc nc fp))"
proof (induction nc arbitrary: fc)
  case Nil
  then show ?case by (simp add: create_events_def)
next
  case (Cons a nc)
  obtain k v where a: "a = (k, v)" by (cases a)
  show ?case
  proof (cases "map_of fc k")
    case None
    let ?fc = "AList.update k (Some \<lparr>FilePath = fp, Value = v\<rparr>) fc"
    have eq: "create_events fc (a # nc) fp = mkEvent k Create v # create_events ?fc nc fp"
      using aoc_events [of ?fc nc "[mkEvent k Create v]" fp] by (simp add: a None create_events_def)
    have "k \<notin> Key ` set (create_events ?fc nc fp)"
    proof
      assume "k \<in> Key ` set (create_events ?fc nc fp)"
      then obtain e where e: "e \<in> set (create_events ?fc nc fp)" and k: "Key e = k" by auto
      from create_events_keys [OF e] have "map_of ?fc k = None" by (simp add: k)
      then show False by (simp add: update_conv')
    qed
    then show ?thesis by (simp add: eq Cons.IH)
  next
    case (Some x)
    then have "create_events fc (a # nc) fp = create_events fc nc fp"
      by (simp add: a create_events_def)
    then show ?thesis by (simp add: Cons.IH)
  qed
qed

lemma create_events_filter:
  "filter (\<lambda>e. Key e = K) (create_events fc nc fp) =
     (case map_of fc K of Some x \<Rightarrow> []
      | None \<Rightarrow> (case map_of nc K of None \<Rightarrow> [] | Some v \<Rightarrow> [mkEvent K Create v]))"
proof (induction nc arbitrary: fc)
  case Nil
  then show ?case by (simp add: create_events_def split: option.splits)
next
  case (Cons a nc)
  obtain k v where a: "a = (k, v)" by (cases a)
  show ?case
  proof (cases "map_of fc k")
    case None
    let ?fc = "AList.update k (Some \<lparr>FilePath = fp, Value = v\<rparr>) fc"
    have eq: "create_events fc (a # nc) fp = mkEvent k Create v # create_events ?fc nc fp"
      using aoc_events [of ?fc nc "[mkEvent k Create v]" fp] by (simp add: a None create_events_def)
    show ?thesis
      unfolding eq using None by (auto simp: Cons.IH a update_conv' split: option.splits)
  next
    case (Some x)
    then have eq: "create_events fc (a # nc) fp = create_events fc nc fp"
      by (simp add: a create_events_def)
    show ?thesis
      unfolding eq using Some by (auto simp: Cons.IH a split: option.splits)
  qed
qed

lemma compareUpdate_unregistered:
  "priorityLoop (files s) fp MaxUint32 = MaxUint32 \<Longrightarrow> compareUpdate nc fp s = Inr (s, [])"
  by (simp add: compareUpdate_def)

lemma compareUpdate_run:
  assumes P: "priorityLoop (files s) fp MaxUint32 \<noteq> MaxUint32"
    and nf: "None \<notin> snd ` set (Configurations s)"
  shows "\<exists>fc. compareUpdate_loop (files s) (priorityLoop (files s) fp MaxUint32) nc fp
                 (Configurations s) ([], [])
               = Inr (fc, loop_events (files s) (priorityLoop (files s) fp MaxUint32) nc fp
                            (Configurations s))
          \<and> compareUpdate nc fp s
               = Inr (s\<lparr>Configurations := fst (addOrCreateConf fc nc [] fp)\<rparr>,
                      loop_events (files s) (priorityLoop (files s) fp MaxUint32) nc fp
                        (Configurations s) @ create_events fc nc fp)"
proof -
  let ?P = "priorityLoop (files s) fp MaxUint32"
  from loop_total [OF nf] obtain fc ev where
    l: "compareUpdate_loop (files s) ?P nc fp (Configurations s) ([], []) = Inr (fc, ev)"
    by (metis surj_pair)
  from loop_events_eq [OF l] have ev: "ev = loop_events (files s) ?P nc fp (Configurations s)"
    by simp
  have a: "addOrCreateConf fc nc ev fp =
      (fst (addOrCreateConf fc nc [] fp), ev @ create_events fc nc fp)"
    using aoc_events [of fc nc ev fp] aoc_map [of fc nc ev fp]
    by (metis aoc_fst_ev prod.collapse)
  show ?thesis
    using P l a by (auto simp: compareUpdate_def ev)
qed

lemma step_dropped:
  "map_of (fst (compareUpdate_step fs P nc fp K ci ([], []))) K = None \<Longrightarrow> map_of nc K = None"
  by (simp add: compareUpdate_step_def Let_def update_conv' split: option.splits if_splits)

lemma compareUpdate_present:
  assumes P: "priorityLoop (files s) fp MaxUint32 \<noteq> MaxUint32"
    and nf: "None \<notin> snd ` set (Configurations s)"
    and d: "distinct (map fst (Configurations s))"
    and K: "(K, Some ci) \<in> set (Configurations s)"
  shows "\<exists>s' evs. compareUpdate nc fp s = Inr (s', evs) \<and> files s' = files s \<and>
           map_of (Configurations s') K =
             map_of (fst (compareUpdate_step (files s) (priorityLoop (files s) fp MaxUint32)
                            nc fp K ci ([], []))) K \<and>
           filter (\<lambda>e. Key e = K) evs =
             snd (compareUpdate_step (files s) (priorityLoop (files s) fp MaxUint32)
                    nc fp K ci ([], []))"
proof -
  let ?P = "priorityLoop (files s) fp MaxUint32"
  let ?step = "compareUpdate_step (files s) ?P nc fp K ci ([], [])"
  from compareUpdate_run [OF P nf, of nc] obtain fc where
    l: "compareUpdate_loop (files s) ?P nc fp (Configurations s) ([], [])
          = Inr (fc, loop_events (files s) ?P nc fp (Configurations s))"
    and r: "compareUpdate nc fp s
          = Inr (s\<lparr>Configurations := fst (addOrCreateConf fc nc [] fp)\<rparr>,
                 loop_events (files s) ?P nc fp (Configurations s) @ create_events fc nc fp)"
    by blast
  have fcK: "map_of fc K = map_of (fst ?step) K"
    using loop_map_present [OF l d K] by simp
  have m: "map_of (fst (addOrCreateConf fc nc [] fp)) K = map_of (fst ?step) K"
    using step_dropped [of "files s" ?P nc fp K ci]
    by (simp add: aoc_map fcK split: option.splits)
  have c: "filter (\<lambda>e. Key e = K) (create_events fc nc fp) = []"
    using step_dropped [of "files s" ?P nc fp K ci]
    by (simp add: create_events_filter fcK split: option.splits)
  show ?thesis
    using r m c loop_events_present [OF d K, of "files s" ?P nc fp] by simp
qed



lemma loop_dropped_not_new:
  assumes l: "compareUpdate_loop fs P nc fp st ([], []) = Inr (fc, ev)"
    and nf: "None \<notin> snd ` set st" and d: "distinct (map fst st)"
    and K: "K \<in> fst ` set st" and m: "map_of fc K = None"
  shows "K \<notin> fst ` set nc"
proof -
  from K obtain c where "(K, c) \<in> set st" by auto
  with nf obtain ci where ci: "(K, Some ci) \<in> set st" by (cases c) force+
  from loop_map_present [OF l d ci] m
  have "map_of (fst (compareUpdate_step fs P nc fp K ci ([], []))) K = None" by simp
  from step_dropped [OF this] show ?thesis by (simp add: map_of_eq_None_iff)
qed

lemma compareUpdate_wf:
  assumes wf: "wf_store s"
  shows "\<exists>s' evs. compareUpdate nc fp s = Inr (s', evs) \<and> wf_store s' \<and> files s' = files s"
proof (cases "priorityLoop (files s) fp MaxUint32 = MaxUint32")
  case True
  then have "compareUpdate nc fp s = Inr (s, [])" by (rule compareUpdate_unregistered)
  with wf show ?thesis by simp
next
  case False
  let ?P = "priorityLoop (files s) fp MaxUint32"
  from wf have nf: "None \<notin> snd ` set (Configurations s)" by (simp add: wf_store_def)
  from compareUpdate_run [OF False nf, of nc] obtain fc where
    l: "compareUpdate_loop (files s) ?P nc fp (Configurations s) ([], [])
          = Inr (fc, loop_events (files s) ?P nc fp (Configurations s))"
    and r: "compareUpdate nc fp s
          = Inr (s\<lparr>Configurations := fst (addOrCreateConf fc nc [] fp)\<rparr>,
                 loop_events (files s) ?P nc fp (Configurations s) @ create_events fc nc fp)"
    by blast
  from loop_nil_free [OF l] have "None \<notin> snd ` set fc" by simp
  moreover from loop_distinct [OF l] have "distinct (map fst fc)" by simp
  ultimately have "wf_store (s\<lparr>Configurations := fst (addOrCreateConf fc nc [] fp)\<rparr>)"
    by (simp add: wf_store_def aoc_nil_free aoc_distinct)
  with r show ?thesis by simp
qed

lemma handlePriority_Configurations:
  "Configurations (snd (handlePriority fp prio s)) = Configurations s"
  by (simp add: handlePriority_def split: prod.splits)

lemma handlePriority_wf: "wf_store s \<Longrightarrow> wf_store (snd (handlePriority fp prio s))"
  by (simp add: wf_store_def handlePriority_Configurations)

lemma reorder_wf: "wf_store s \<Longrightarrow> wf_store (reorder st s)"
  by (simp add: wf_store_def reorder_def)


lemma applyOps_wf:
  "wf_store s \<Longrightarrow> \<exists>s'. applyOps ops s = Inr s' \<and> wf_store s'"
proof (induction ops arbitrary: s)
  case Nil
  then show ?case by simp
next
  case (Cons a ops)
  show ?case
  proof (cases a)
    case (Register fp prio)
    with Cons.IH [OF handlePriority_wf [OF Cons.prems, of fp prio]] show ?thesis by simp
  next
    case (Merge nc fp)
    from compareUpdate_wf [OF Cons.prems, of nc fp] obtain s1 evs where
      "compareUpdate nc fp s = Inr (s1, evs)" "wf_store s1" by blast
    with Cons.IH [of s1] Merge show ?thesis by simp
  next
    case (Reorder st)
    with Cons.IH [OF reorder_wf [OF Cons.prems, of st]] show ?thesis by simp
  qed
qed

lemma GetConfigurationByKey_loop_map_of:
  "None \<notin> snd ` set st \<Longrightarrow>
   GetConfigurationByKey_loop st k =
     (case map_of st k of None \<Rightarrow> Inr (Inl KeyNotExist)
      | Some c \<Rightarrow> (case c of None \<Rightarrow> Inl NilPointerDereference
                    | Some ci \<Rightarrow> Inr (Inr (Value ci))))"
proof (induction st)
  case Nil
  then show ?case by simp
next
  case (Cons a st)
  obtain ckey c where a: "a = (ckey, c)" by (cases a)
  with Cons.prems obtain ci where c: "c = Some ci" by (cases c) force+
  from Cons.prems have "None \<notin> snd ` set st" by auto
  from Cons.IH [OF this] show ?case by (simp add: a c)
qed

lemma GetConfigurationByKey_wf:
  assumes "wf_store s"
  shows "(k, Some ci) \<in> set (Configurations s) \<Longrightarrow> GetConfigurationByKey s k = Inr (Inr (Value ci))"
    and "k \<notin> fst ` set (Configurations s) \<Longrightarrow> GetConfigurationByKey s k = Inr (Inl KeyNotExist)"
  using assms
  by (simp_all add: wf_store_def GetConfigurationByKey_def GetConfigurationByKey_loop_map_of
      map_of_eq_None_iff [THEN iffD2])

lemmas example_defs = example_source_def example_files_def MaxUint32_def




section \<open>Priority precedence\<close>




section \<open>Contention between two sources\<close>

text \<open>
  Claim C2, as stated, at a concrete input: \<^verbatim>\<open>/etc/c.conf\<close> merges \<open>k\<close> into a store where
  \<open>k\<close> is owned by \<^verbatim>\<open>/etc/b.conf\<close> of the same priority. The value is replaced and no event
  is emitted, but the entry's \<^verbatim>\<open>FilePath\<close> is still \<^verbatim>\<open>/etc/b.conf\<close>: it is not
  re-attributed to the merging path.
\<close>

theorem tie_overwrite_counterexample:
  "compareUpdate [(''k'', ''new'')] ''/etc/c.conf'' example_source =
     Inr (\<lparr>Configurations = [(''k'', Some \<lparr>FilePath = ''/etc/b.conf'', Value = ''new''\<rparr>)],
           files = example_files, fileHandlers = [], watchPool = None, sourcePriority = 4\<rparr>, []) \<and>
   ''/etc/b.conf'' \<noteq> ''/etc/c.conf''"
  by (simp add: example_defs compareUpdate_def compareUpdate_step_def)

text \<open>
  Claim C2, amended. When a merge for path \<open>S\<close> runs (the priority found for \<open>S\<close> is not
  the sentinel \<open>MaxUint32\<close>) and meets an entry for \<open>K\<close> owned by a different path for which
  the same priority is found, and the new mapping defines \<open>K\<close>, then the merge returns, the
  entry's value is replaced by the new value, no event of the batch is for \<open>K\<close>, and the
  entry's owning path stays what it was.
\<close>

theorem tie_overwrite_keeps_owner:
  assumes "priorityLoop (files s) S MaxUint32 \<noteq> MaxUint32"
    and "None \<notin> snd ` set (Configurations s)"
    and "distinct (map fst (Configurations s))"
    and "(K, Some ci) \<in> set (Configurations s)"
    and "FilePath ci \<noteq> S"
    and "priorityLoop (files s) (FilePath ci) MaxUint32 = priorityLoop (files s) S MaxUint32"
    and "map_of newconf K = Some v"
  shows "\<exists>s' evs. compareUpdate newconf S s = Inr (s', evs) \<and>
           map_of (Configurations s') K = Some (Some \<lparr>FilePath = FilePath ci, Value = v\<rparr>) \<and>
           K \<notin> Key ` set evs"
proof -
  from compareUpdate_present [OF assms(1-4), of newconf] obtain s' evs where
    r: "compareUpdate newconf S s = Inr (s', evs)"
    and m: "map_of (Configurations s') K =
             map_of (fst (compareUpdate_step (files s) (priorityLoop (files s) S MaxUint32)
                            newconf S K ci ([], []))) K"
    and f: "filter (\<lambda>e. Key e = K) evs =
             snd (compareUpdate_step (files s) (priorityLoop (files s) S MaxUint32)
                    newconf S K ci ([], []))"
    by blast
  from f assms(5-7) have "filter (\<lambda>e. Key e = K) evs = []"
    by (simp add: compareUpdate_step_def)
  then have "K \<notin> Key ` set evs" by (auto simp: filter_empty_conv)
  moreover from m assms(5-7) have
    "map_of (Configurations s') K = Some (Some \<lparr>FilePath = FilePath ci, Value = v\<rparr>)"
    by (simp add: compareUpdate_step_def)
  ultimately show ?thesis using r by blast
qed

theorem tie_overwrite_keeps_owner_witness:
  "\<exists>s' evs. compareUpdate [(''k'', ''new'')] ''/etc/c.conf'' example_source = Inr (s', evs) \<and>
      map_of (Configurations s') ''k'' = Some (Some \<lparr>FilePath = ''/etc/b.conf'', Value = ''new''\<rparr>) \<and>
      ''k'' \<notin> Key ` set evs"
  using tie_overwrite_keeps_owner [where s = example_source and S = "''/etc/c.conf''"
      and K = "''k''" and ci = "\<lparr>FilePath = ''/etc/b.conf'', Value = ''old''\<rparr>"
      and newconf = "[(''k'', ''new'')]" and v = "''new''"]
  by (simp add: example_defs)




section \<open>The registry\<close>

text \<open>
  Claim C4, evaluated: registering a path twice with the same priority leaves two entries
  for it in \<^verbatim>\<open>files\<close>, and registering it again with another priority appends a second
  entry instead of replacing the priority in place.
\<close>

theorem handlePriority_duplicates_path:
  "files (snd (handlePriority ''/etc/a.conf'' 1 (snd (handlePriority ''/etc/a.conf'' 1
      (NewConfigMapSource :: string configMapSource))))) =
     [\<lparr>filePath = ''/etc/a.conf'', priority = 1\<rparr>, \<lparr>filePath = ''/etc/a.conf'', priority = 1\<rparr>] \<and>
   files (snd (handlePriority ''/etc/a.conf'' 2 (snd (handlePriority ''/etc/a.conf'' 1
      (NewConfigMapSource :: string configMapSource))))) =
     [\<lparr>filePath = ''/etc/a.conf'', priority = 1\<rparr>, \<lparr>filePath = ''/etc/a.conf'', priority = 2\<rparr>]"
  by (simp add: handlePriority_def NewConfigMapSource_def)

section \<open>Loading a directory\<close>

text \<open>
  Claim C5, evaluated: the walk over \<^verbatim>\<open>/conf\<close> loads \<^verbatim>\<open>a.conf\<close>, stops at the
  unsupported node with the error for it and never reaches \<^verbatim>\<open>z.conf\<close>; \<^verbatim>\<open>AddFile\<close>
  keeps the store of the aborted walk but returns no error.
\<close>

theorem AddFile_drops_walk_error:
  "filepath_Walk (walkFn example_handler example_os 5 None) (Walk example_os ''/conf'')
     ((NewConfigMapSource :: string configMapSource)\<lparr>fileHandlers := [(''/conf'', None)]\<rparr>) =
   Inr (Some (FileTypeNotSupported ''/conf/sock''),
        \<lparr>Configurations = [(''x'', Some \<lparr>FilePath = ''/conf/a.conf'', Value = ''1''\<rparr>)],
         files = [\<lparr>filePath = ''/conf/a.conf'', priority = 5\<rparr>],
         fileHandlers = [(''/conf'', None)], watchPool = None, sourcePriority = 4\<rparr>) \<and>
   AddFile example_handler example_os ''/conf'' 5 None (NewConfigMapSource :: string configMapSource) =
   Inr (None,
        \<lparr>Configurations = [(''x'', Some \<lparr>FilePath = ''/conf/a.conf'', Value = ''1''\<rparr>)],
         files = [\<lparr>filePath = ''/conf/a.conf'', priority = 5\<rparr>],
         fileHandlers = [(''/conf'', None)], watchPool = None, sourcePriority = 4\<rparr>)"
  by (simp add: AddFile_def example_os_def example_handler_def NewConfigMapSource_def walkFn_def
      handleFile_def handlePriority_def compareUpdate_def MaxUint32_def OnEvents_def
      watchIfPool_def configMapSourcePriority_def)

section \<open>Deletion\<close>

text \<open>
  Claim C6, as stated, at a concrete input. \<^verbatim>\<open>/etc/b.conf\<close> is registered with priority 2,
  creates \<open>k\<close>, and is registered again with priority \<open>4294967295\<close>; the search then finds
  the sentinel for it, and a merge for \<^verbatim>\<open>/etc/b.conf\<close> without \<open>k\<close> returns at the guard:
  \<open>k\<close> stays in the store and no event is emitted.
\<close>

theorem deletion_sentinel_counterexample:
  "applyOps [Register ''/etc/b.conf'' 2, Merge [(''k'', ''old'')] ''/etc/b.conf'',
             Register ''/etc/b.conf'' 0xFFFFFFFF] NewConfigMapSource =
     Inr example_sentinel_source \<and>
   Configurations example_sentinel_source =
     [(''k'', Some \<lparr>FilePath = ''/etc/b.conf'', Value = ''old''\<rparr>)] \<and>
   compareUpdate [] ''/etc/b.conf'' example_sentinel_source = Inr (example_sentinel_source, [])"
  by (simp add: example_sentinel_source_def NewConfigMapSource_def handlePriority_def
      compareUpdate_def compareUpdate_step_def MaxUint32_def configMapSourcePriority_def)

text \<open>
  Claim C6, amended. If the well-formed store holds an entry for \<open>K\<close> owned by path \<open>S\<close>,
  and the priority found for \<open>S\<close> is not the sentinel \<open>MaxUint32\<close>, then a merge for \<open>S\<close>
  whose mapping does not contain \<open>K\<close> returns, \<open>K\<close> is no longer in the store, and the batch
  holds exactly one event for \<open>K\<close>: a \<open>Delete\<close> carrying the value \<open>K\<close> had before.
\<close>

theorem deletion:
  assumes "priorityLoop (files s) S MaxUint32 \<noteq> MaxUint32"
    and "None \<notin> snd ` set (Configurations s)"
    and "distinct (map fst (Configurations s))"
    and "(K, Some ci) \<in> set (Configurations s)"
    and "FilePath ci = S"
    and "map_of newconf K = None"
  shows "\<exists>s' evs. compareUpdate newconf S s = Inr (s', evs) \<and>
           K \<notin> fst ` set (Configurations s') \<and>
           filter (\<lambda>e. Key e = K) evs = [mkEvent K Delete (Value ci)]"
  using compareUpdate_present [OF assms(1-4), of newconf] assms(5,6)
  by (auto simp add: compareUpdate_step_def map_of_eq_None_iff)

theorem deletion_witness:
  "\<exists>s' evs. compareUpdate [] ''/etc/b.conf'' example_source = Inr (s', evs) \<and>
      ''k'' \<notin> fst ` set (Configurations s') \<and>
      filter (\<lambda>e. Key e = ''k'') evs = [mkEvent ''k'' Delete ''old'']"
  using deletion [where s = example_source and S = "''/etc/b.conf''" and K = "''k''"
      and ci = "\<lparr>FilePath = ''/etc/b.conf'', Value = ''old''\<rparr>" and newconf = "[]"]
  by (simp add: example_defs)

section \<open>Repeating a merge\<close>

text \<open>
  Claim C7, evaluated: \<^verbatim>\<open>/etc/a.conf\<close> (priority 1) merges \<open>k\<close> over the entry owned by
  \<^verbatim>\<open>/etc/b.conf\<close> (priority 2) and emits an \<open>Update\<close>; the same merge once more leaves
  the store as it is and emits the same \<open>Update\<close> again, since the entry still belongs to
  \<^verbatim>\<open>/etc/b.conf\<close> and that branch does not compare the values.
\<close>

theorem repeated_merge_repeats_update:
  "compareUpdate [(''k'', ''new'')] ''/etc/a.conf'' example_source =
     Inr (example_source\<lparr>Configurations :=
            [(''k'', Some \<lparr>FilePath = ''/etc/b.conf'', Value = ''new''\<rparr>)]\<rparr>,
          [mkEvent ''k'' Update ''new'']) \<and>
   compareUpdate [(''k'', ''new'')] ''/etc/a.conf''
       (example_source\<lparr>Configurations :=
            [(''k'', Some \<lparr>FilePath = ''/etc/b.conf'', Value = ''new''\<rparr>)]\<rparr>) =
     Inr (example_source\<lparr>Configurations :=
            [(''k'', Some \<lparr>FilePath = ''/etc/b.conf'', Value = ''new''\<rparr>)]\<rparr>,
          [mkEvent ''k'' Update ''new''])"
  by (simp add: example_defs compareUpdate_def compareUpdate_step_def)

section \<open>Merging for an unregistered path\<close>

text \<open>
  Claim C8. A merge for a path that has no entry in \<^verbatim>\<open>files\<close> returns the source as it
  was, store included, and an empty event list, whatever the store holds.
\<close>

theorem unregistered_merge_noop:
  "fp \<notin> filePath ` set (files s) \<Longrightarrow> compareUpdate newconf fp s = Inr (s, [])"
  by (simp add: compareUpdate_def priorityLoop_absent)

theorem unregistered_merge_noop_witness:
  "''/etc/z.conf'' \<notin> filePath ` set (files example_source) \<and>
   compareUpdate [(''k'', ''new'')] ''/etc/z.conf'' example_source = Inr (example_source, [])"
  using unregistered_merge_noop [where fp = "''/etc/z.conf''" and s = example_source
      and newconf = "[(''k'', ''new'')]"]
  by (simp add: example_defs)

section \<open>The event batch of one merge\<close>

text \<open>
  Claim C9. On a well-formed store every merge returns; the keys of the events of its batch
  are pairwise different, and the batch is a list of \<open>Update\<close> and \<open>Delete\<close> events for
  keys that were in the store, followed by a list of \<open>Create\<close> events for keys that were
  not.
\<close>

theorem event_batch_consistent:
  assumes nf: "None \<notin> snd ` set (Configurations s)"
    and d: "distinct (map fst (Configurations s))"
  shows "\<exists>s' evs. compareUpdate newconf fp s = Inr (s', evs) \<and> distinct (map Key evs) \<and>
           (\<exists>pre cre. evs = pre @ cre \<and>
              (\<forall>e\<in>set pre. (EventType e = Update \<or> EventType e = Delete) \<and>
                             Key e \<in> fst ` set (Configurations s)) \<and>
              (\<forall>e\<in>set cre. EventType e = Create \<and> Key e \<notin> fst ` set (Configurations s)))"
proof (cases "priorityLoop (files s) fp MaxUint32 = MaxUint32")
  case True
  then have "compareUpdate newconf fp s = Inr (s, [])" by (rule compareUpdate_unregistered)
  then show ?thesis by simp
next
  case False
  let ?P = "priorityLoop (files s) fp MaxUint32"
  let ?pre = "loop_events (files s) ?P newconf fp (Configurations s)"
  from compareUpdate_run [OF False nf, of newconf] obtain fc where
    l: "compareUpdate_loop (files s) ?P newconf fp (Configurations s) ([], []) = Inr (fc, ?pre)"
    and r: "compareUpdate newconf fp s
          = Inr (s\<lparr>Configurations := fst (addOrCreateConf fc newconf [] fp)\<rparr>,
                 ?pre @ create_events fc newconf fp)"
    by blast
  let ?cre = "create_events fc newconf fp"
  have pre: "\<forall>e\<in>set ?pre. (EventType e = Update \<or> EventType e = Delete) \<and>
                             Key e \<in> fst ` set (Configurations s)"
    using loop_events_keys by blast
  have cre: "\<forall>e\<in>set ?cre. EventType e = Create \<and> Key e \<notin> fst ` set (Configurations s)"
  proof
    fix e assume e: "e \<in> set ?cre"
    from create_events_keys [OF e] have ty: "EventType e = Create"
      and m: "map_of fc (Key e) = None" and n: "Key e \<in> fst ` set newconf" by simp_all
    from loop_dropped_not_new [OF l nf d _ m] n have "Key e \<notin> fst ` set (Configurations s)"
      by blast
    with ty show "EventType e = Create \<and> Key e \<notin> fst ` set (Configurations s)" by simp
  qed
  have "Key ` set ?pre \<inter> Key ` set ?cre = {}"
  proof -
    have False if a: "a \<in> set ?pre" and b: "b \<in> set ?cre" and eq: "Key a = Key b" for a b
    proof -
      from pre a have "Key a \<in> fst ` set (Configurations s)" by blast
      moreover from cre b have "Key b \<notin> fst ` set (Configurations s)" by blast
      ultimately show False using eq by simp
    qed
    then show ?thesis by blast
  qed
  then have "distinct (map Key (?pre @ ?cre))"
    using loop_events_distinct [OF d, of "files s" ?P newconf fp]
      create_events_distinct [of fc newconf fp]
    by simp
  with r pre cre show ?thesis by blast
qed

theorem event_batch_consistent_witness:
  "\<exists>s' evs. compareUpdate [(''k'', ''new''), (''j'', ''x'')] ''/etc/a.conf'' example_source = Inr (s', evs) \<and>
      evs = [mkEvent ''k'' Update ''new'', mkEvent ''j'' Create ''x''] \<and>
      distinct (map Key evs) \<and>
      (\<exists>pre cre. evs = pre @ cre \<and>
         (\<forall>e\<in>set pre. (EventType e = Update \<or> EventType e = Delete) \<and>
                        Key e \<in> fst ` set (Configurations example_source)) \<and>
         (\<forall>e\<in>set cre. EventType e = Create \<and> Key e \<notin> fst ` set (Configurations example_source)))"
proof -
  have nf: "None \<notin> snd ` set (Configurations example_source)" by (simp add: example_defs)
  have d: "distinct (map fst (Configurations example_source))" by (simp add: example_defs)
  have run: "\<exists>s'. compareUpdate [(''k'', ''new''), (''j'', ''x'')] ''/etc/a.conf'' example_source =
      Inr (s', [mkEvent ''k'' Update ''new'', mkEvent ''j'' Create ''x''])"
    by (simp add: example_defs compareUpdate_def compareUpdate_step_def)
  from event_batch_consistent [OF nf d, of "[(''k'', ''new''), (''j'', ''x'')]" "''/etc/a.conf''"]
  obtain s' evs where
    r: "compareUpdate [(''k'', ''new''), (''j'', ''x'')] ''/etc/a.conf'' example_source = Inr (s', evs)"
    and p: "distinct (map Key evs) \<and>
      (\<exists>pre cre. evs = pre @ cre \<and>
         (\<forall>e\<in>set pre. (EventType e = Update \<or> EventType e = Delete) \<and>
                        Key e \<in> fst ` set (Configurations example_source)) \<and>
         (\<forall>e\<in>set cre. EventType e = Create \<and> Key e \<notin> fst ` set (Configurations example_source)))"
    by blast
  from run r have "evs = [mkEvent ''k'' Update ''new'', mkEvent ''j'' Create ''x'']" by auto
  with r p show ?thesis by blast
qed

section \<open>No nil entry in the store\<close>

text \<open>
  Claim C10. Every history of registrations and merges from the new, empty source runs to
  its end without a panic, visiting the store in any order; the store it builds holds no
  nil pointer, so the branches for a nil \<^verbatim>\<open>confInfo\<close> are never taken, and
  \<^verbatim>\<open>GetConfigurationByKey\<close> returns the stored value for a key that is there and the error
  for a key that is not.
\<close>

theorem merged_stores_have_no_nil_entries:
  "\<exists>s. applyOps ops NewConfigMapSource = Inr s \<and>
        None \<notin> snd ` set (Configurations s) \<and>
        (\<forall>k ci. (k, Some ci) \<in> set (Configurations s) \<longrightarrow>
                 GetConfigurationByKey s k = Inr (Inr (Value ci))) \<and>
        (\<forall>k. k \<notin> fst ` set (Configurations s) \<longrightarrow>
              GetConfigurationByKey s k = Inr (Inl KeyNotExist))"
proof -
  have "wf_store (NewConfigMapSource :: 'a configMapSource)"
    by (simp add: wf_store_def NewConfigMapSource_def)
  from applyOps_wf [OF this, of ops] obtain s where
    r: "applyOps ops NewConfigMapSource = Inr s" and wf: "wf_store s" by blast
  from wf have "None \<notin> snd ` set (Configurations s)" by (simp add: wf_store_def)
  with r GetConfigurationByKey_wf [OF wf] show ?thesis by blast
qed

theorem merged_stores_have_no_nil_entries_witness:
  "\<exists>s. applyOps [Register ''/etc/a.conf'' 1, Merge [(''k'', ''v'')] ''/etc/a.conf'']
          (NewConfigMapSource :: string configMapSource) = Inr s \<and>
       (''k'', Some \<lparr>FilePath = ''/etc/a.conf'', Value = ''v''\<rparr>) \<in> set (Configurations s) \<and>
       ''j'' \<notin> fst ` set (Configurations s) \<and>
       GetConfigurationByKey s ''k'' = Inr (Inr ''v'') \<and>
       GetConfigurationByKey s ''j'' = Inr (Inl KeyNotExist)"
proof -
  have run: "\<exists>s. applyOps [Register ''/etc/a.conf'' 1, Merge [(''k'', ''v'')] ''/etc/a.conf'']
          (NewConfigMapSource :: string configMapSource) = Inr s \<and>
       Configurations s = [(''k'', Some \<lparr>FilePath = ''/etc/a.conf'', Value = ''v''\<rparr>)]"
    by (simp add: NewConfigMapSource_def handlePriority_def compareUpdate_def MaxUint32_def)
  from merged_stores_have_no_nil_entries
    [of "[Register ''/etc/a.conf'' 1, Merge [(''k'', ''v'')] ''/etc/a.conf'']"] run
  show ?thesis by auto
qed

end
